theory Spec2Isabelle
  imports Complex_Main
begin

section \<open>Exact-rational Gaussian elimination with a transcript (project.py)\<close>

text \<open>
  The solver class \<^verbatim>\<open>LinearSystemSolver\<close> of \<^verbatim>\<open>project.py\<close> is embedded as
  follows.
  \<^item> A Python \<^verbatim>\<open>Fraction\<close> is a value of type \<^typ>\<open>rat\<close>; its \<^verbatim>\<open>numerator\<close> and
    \<^verbatim>\<open>denominator\<close> (lowest terms, positive denominator) are the two components of
    \<^term>\<open>quotient_of\<close>.
  \<^item> The matrix is a list of rows, each a list of rationals; \<^verbatim>\<open>matrix[r] = new_row\<close>
    is a list update.
  \<^item> The log callback is a list of strings, one element per call of the callback,
    in the order of the calls.
  \<^item> Every place where the Python can raise (an index out of range, a division by
    zero) is a branch that returns \<open>Inl\<close> of the exception.
  \<^item> A \<^verbatim>\<open>for\<close> loop over \<^verbatim>\<open>range(a, b)\<close> is a recursion over the list \<open>[a..<b]\<close>,
    a descending range over the reversed list.
\<close>

subsection \<open>Exceptions\<close>

datatype py_error = IndexError | ZeroDivisionError | ValueError

definition bindE :: "py_error + 'a \<Rightarrow> ('a \<Rightarrow> py_error + 'b) \<Rightarrow> py_error + 'b" where
  "bindE r f = (case r of Inl e \<Rightarrow> Inl e | Inr v \<Rightarrow> f v)"

text \<open>A list comprehension whose element expression may raise: the first exception wins.\<close>

fun mapE :: "('a \<Rightarrow> py_error + 'b) \<Rightarrow> 'a list \<Rightarrow> py_error + 'b list" where
  "mapE f [] = Inr []"
| "mapE f (x # xs) = bindE (f x) (\<lambda>y. bindE (mapE f xs) (\<lambda>ys. Inr (y # ys)))"

text \<open>\<^verbatim>\<open>xs[i]\<close> and \<^verbatim>\<open>xs[i] = v\<close> for a non-negative index.\<close>

definition getitem :: "'a list \<Rightarrow> nat \<Rightarrow> py_error + 'a" where
  "getitem xs i = (if i < length xs then Inr (xs ! i) else Inl IndexError)"

definition setitem :: "'a list \<Rightarrow> nat \<Rightarrow> 'a \<Rightarrow> py_error + 'a list" where
  "setitem xs i v = (if i < length xs then Inr (xs[i := v]) else Inl IndexError)"

text \<open>\<^verbatim>\<open>xs[-1]\<close>.\<close>

definition getlast :: "'a list \<Rightarrow> py_error + 'a" where
  "getlast xs = (if xs = [] then Inl IndexError else Inr (last xs))"

text \<open>\<^verbatim>\<open>x / y\<close> on fractions.\<close>

definition frac_div :: "rat \<Rightarrow> rat \<Rightarrow> py_error + rat" where
  "frac_div x y = (if y = 0 then Inl ZeroDivisionError else Inr (x / y))"

subsection \<open>Decimal text of integers\<close>

definition digit_char :: "nat \<Rightarrow> char" where
  "digit_char k = ''0123456789'' ! k"

function str_nat :: "nat \<Rightarrow> string" where
  "str_nat n = (if n < 10 then [digit_char n] else str_nat (n div 10) @ [digit_char (n mod 10)])"
  by pat_completeness auto
termination
  by (relation "measure id") auto

declare str_nat.simps [simp del]

text \<open>\<^verbatim>\<open>str(i)\<close> for a Python integer.\<close>

definition str_int :: "int \<Rightarrow> string" where
  "str_int i = (if i < 0 then CHR ''-'' # str_nat (nat (- i)) else str_nat (nat i))"

subsection \<open>\<^verbatim>\<open>log\<close>, \<^verbatim>\<open>format_value\<close>, \<^verbatim>\<open>print_matrix\<close>\<close>

text \<open>\<^verbatim>\<open>self.log_callback(str(message) + "\n")\<close>: the sink receives one more string.\<close>

definition log :: "string list \<Rightarrow> string \<Rightarrow> string list" where
  "log out message = out @ [message @ ''\<newline>'']"

definition format_value :: "rat \<Rightarrow> string" where
  "format_value x = (case quotient_of x of (n, d) \<Rightarrow>
     if d = 1 then str_int n else str_int n @ ''/'' @ str_int d)"

text \<open>The format specification \<^verbatim>\<open>{val:>8}\<close>: right-aligned in a field of width 8.\<close>

definition rjust8 :: "string \<Rightarrow> string" where
  "rjust8 s = replicate (8 - length s) CHR '' '' @ s"

text \<open>\<^verbatim>\<open>sep.join(parts)\<close>.\<close>

fun join :: "string \<Rightarrow> string list \<Rightarrow> string" where
  "join sep [] = []"
| "join sep [p] = p"
| "join sep (p # q # ps) = p @ sep @ join sep (q # ps)"

definition format_row :: "rat list \<Rightarrow> string" where
  "format_row row = '' ['' @ join '', '' (map rjust8 (map format_value row)) @ '']''"

definition print_matrix :: "rat list list \<Rightarrow> string \<Rightarrow> string list \<Rightarrow> string list" where
  "print_matrix m title out =
     log (foldl (\<lambda>acc row. log acc (format_row row))
            (log out (''\<newline>--- '' @ title @ '' ---'')) m)
         (replicate 40 CHR ''-'')"

subsection \<open>\<^verbatim>\<open>Fraction.limit_denominator\<close> (standard library, called by \<^verbatim>\<open>solve\<close>)\<close>

text \<open>
  \<^verbatim>\<open>solve\<close> passes every input value through \<^verbatim>\<open>Fraction(x).limit_denominator()\<close>.
  The library routine is embedded as \<^verbatim>\<open>fractions.py\<close> of CPython 3.11 writes it (later
  versions only compare the two bounds without building them first): the
  \<^verbatim>\<open>while True\<close> loop over the continued-fraction expansion, here with the floor
  division \<^verbatim>\<open>n//d\<close> raising on a zero divisor, and then the choice between the two
  bounds. The loop state is \<open>(p0, q0, p1, q1, n, d)\<close>; it returns the state at the
  \<^verbatim>\<open>break\<close>.
\<close>

definition max_denominator :: int where
  "max_denominator = 1000000"

function limit_loop :: "int \<Rightarrow> int \<Rightarrow> int \<Rightarrow> int \<Rightarrow> int \<Rightarrow> int \<Rightarrow> int
    \<Rightarrow> py_error + (int \<times> int \<times> int \<times> int \<times> int \<times> int)" where
  "limit_loop M p0 q0 p1 q1 n d =
     (if d = 0 then Inl ZeroDivisionError
      else let a = n div d; q2 = q0 + a * q1 in
        if q2 > M then Inr (p0, q0, p1, q1, n, d)
        else limit_loop M p1 q1 (p0 + a * p1) q2 d (n - a * d))"
  by pat_completeness auto
termination
proof (relation "measure (\<lambda>(M, p0, q0, p1, q1, n, d). nat \<bar>d\<bar>)")
  show "wf (measure (\<lambda>(M, p0, q0, p1, q1, n, d). nat \<bar>d\<bar>))"
    by simp
next
  fix M p0 q0 p1 q1 n d :: int and a q2 :: int
  assume d: "d \<noteq> 0" and a: "a = n div d"
  have "n - a * d = n mod d"
    unfolding a by (simp add: minus_div_mult_eq_mod)
  moreover have "\<bar>n mod d\<bar> < \<bar>d\<bar>"
    using d by (rule abs_mod_less)
  ultimately show "((M, p1, q1, p0 + a * p1, q2, d, n - a * d), (M, p0, q0, p1, q1, n, d))
      \<in> measure (\<lambda>(M, p0, q0, p1, q1, n, d). nat \<bar>d\<bar>)"
    by simp
qed

declare limit_loop.simps [simp del]

definition limit_denominator :: "rat \<Rightarrow> py_error + rat" where
  "limit_denominator x = (case quotient_of x of (num, den) \<Rightarrow>
     if max_denominator < 1 then Inl ValueError
     else if den \<le> max_denominator then Inr x
     else bindE (limit_loop max_denominator 0 1 1 0 num den) (\<lambda>(p0, q0, p1, q1, n, d).
       if q1 = 0 then Inl ZeroDivisionError
       else let k = (max_denominator - q0) div q1 in
         if q0 + k * q1 = 0 then Inl ZeroDivisionError
         else let bound1 = Fract (p0 + k * p1) (q0 + k * q1);
                  bound2 = Fract p1 q1 in
           if \<bar>bound2 - x\<bar> \<le> \<bar>bound1 - x\<bar> then Inr bound2 else Inr bound1))"

subsection \<open>\<^verbatim>\<open>solve\<close>: building the augmented matrix\<close>

text \<open>
  The caller's values are modelled by the rational each one denotes (\<^verbatim>\<open>Fraction(x)\<close>
  is exact for every type it accepts). The loop \<^verbatim>\<open>for i in range(rows)\<close> reads
  \<^verbatim>\<open>coefficients[i]\<close> and then \<^verbatim>\<open>constants[i]\<close>.
\<close>

fun build_matrix :: "nat list \<Rightarrow> rat list list \<Rightarrow> rat list \<Rightarrow> rat list list
    \<Rightarrow> py_error + rat list list" where
  "build_matrix [] coefficients constants m = Inr m"
| "build_matrix (i # rest) coefficients constants m =
     bindE (getitem coefficients i) (\<lambda>ci.
     bindE (mapE limit_denominator ci) (\<lambda>cs.
     bindE (getitem constants i) (\<lambda>k.
     bindE (limit_denominator k) (\<lambda>k'.
       build_matrix rest coefficients constants (m @ [cs @ [k']])))))"

subsection \<open>\<^verbatim>\<open>solve\<close>: the two elementary row operations\<close>

text \<open>A solver state is the matrix together with the lines logged so far.\<close>

type_synonym state = "rat list list \<times> string list"

text \<open>\<^verbatim>\<open>[x / pivot_val for x in matrix[pivot_row]]\<close>\<close>

definition scale_row :: "rat list \<Rightarrow> rat \<Rightarrow> py_error + rat list" where
  "scale_row row pivot_val = mapE (\<lambda>x. frac_div x pivot_val) row"

text \<open>\<^verbatim>\<open>[matrix[r][c_idx] - (factor * matrix[p][c_idx]) for c_idx in range(cols)]\<close>\<close>

definition subtract_row :: "rat list list \<Rightarrow> nat \<Rightarrow> nat \<Rightarrow> rat \<Rightarrow> nat \<Rightarrow> py_error + rat list" where
  "subtract_row m r p factor cols =
     mapE (\<lambda>c_idx.
       bindE (getitem m r) (\<lambda>row_r.
       bindE (getitem row_r c_idx) (\<lambda>a.
       bindE (getitem m p) (\<lambda>row_p.
       bindE (getitem row_p c_idx) (\<lambda>b. Inr (a - factor * b)))))) [0..<cols]"

text \<open>
  The loops \<^verbatim>\<open>for r in range(pivot_row + 1, rows)\<close> of phase 1 and
  \<^verbatim>\<open>for r in range(i - 1, -1, -1)\<close> of phase 2 have the same body (with \<^verbatim>\<open>i\<close> for
  \<^verbatim>\<open>pivot_row\<close> and \<^verbatim>\<open>pivot_col\<close> for \<^verbatim>\<open>col\<close>): one function, over the list of the
  rows \<^verbatim>\<open>r\<close> visited.
\<close>

definition subtract_message :: "nat \<Rightarrow> rat \<Rightarrow> nat \<Rightarrow> string" where
  "subtract_message r factor p =
     ''OPERATION: R'' @ str_int (int r + 1) @ '' <--- R'' @ str_int (int r + 1) @ '' - (''
       @ format_value factor @ '' * R'' @ str_int (int p + 1) @ '')''"

fun subtract_loop :: "nat list \<Rightarrow> nat \<Rightarrow> nat \<Rightarrow> nat \<Rightarrow> state \<Rightarrow> py_error + state" where
  "subtract_loop [] p col cols s = Inr s"
| "subtract_loop (r # rs) p col cols (m, out) =
     bindE (getitem m r) (\<lambda>row_r.
     bindE (getitem row_r col) (\<lambda>factor.
       if factor \<noteq> 0 then
         bindE (subtract_row m r p factor cols) (\<lambda>new_row.
         bindE (setitem m r new_row) (\<lambda>m'.
           subtract_loop rs p col cols
             (m', print_matrix m' ''Current Matrix State''
                    (log out (subtract_message r factor p)))))
       else subtract_loop rs p col cols (m, out)))"

subsection \<open>\<^verbatim>\<open>solve\<close>: phase 1, forward elimination\<close>

definition zero_pivot_message :: "nat \<Rightarrow> nat \<Rightarrow> string" where
  "zero_pivot_message pivot_row col =
     ''Pivot at R'' @ str_int (int pivot_row + 1) @ '', C'' @ str_int (int col + 1)
       @ '' is zero. Swapping disabled, skipping column.''"

definition scale_message :: "nat \<Rightarrow> rat \<Rightarrow> string" where
  "scale_message pivot_row pivot_val =
     ''OPERATION: R'' @ str_int (int pivot_row + 1) @ '' <--- R'' @ str_int (int pivot_row + 1)
       @ '' / ('' @ format_value pivot_val @ '')''"

text \<open>The statement \<^verbatim>\<open>if pivot_val != 1: ...\<close> of the loop body.\<close>

definition normalize_pivot :: "nat \<Rightarrow> rat \<Rightarrow> state \<Rightarrow> py_error + state" where
  "normalize_pivot pivot_row pivot_val s = (case s of (m, out) \<Rightarrow>
     if pivot_val \<noteq> 1 then
       bindE (getitem m pivot_row) (\<lambda>row.
       bindE (scale_row row pivot_val) (\<lambda>new_row.
       bindE (setitem m pivot_row new_row) (\<lambda>m'.
         Inr (m', print_matrix m' ''Current Matrix State''
                    (log out (scale_message pivot_row pivot_val))))))
     else Inr (m, out))"

text \<open>
  The body of \<^verbatim>\<open>for col in range(n_vars)\<close> after the \<^verbatim>\<open>break\<close> test; it returns the
  new value of \<^verbatim>\<open>pivot_row\<close> with the new state.
\<close>

definition phase1_column :: "nat \<Rightarrow> nat \<Rightarrow> nat \<Rightarrow> nat \<Rightarrow> state \<Rightarrow> py_error + (nat \<times> state)" where
  "phase1_column rows cols col pivot_row s = (case s of (m, out) \<Rightarrow>
     bindE (getitem m pivot_row) (\<lambda>prow.
     bindE (getitem prow col) (\<lambda>pivot_val.
       if pivot_val = 0 then Inr (pivot_row, (m, log out (zero_pivot_message pivot_row col)))
       else
         bindE (normalize_pivot pivot_row pivot_val (m, out)) (\<lambda>s1.
         bindE (subtract_loop [pivot_row + 1..<rows] pivot_row col cols s1) (\<lambda>s2.
           Inr (pivot_row + 1, s2))))))"

fun phase1_loop :: "nat list \<Rightarrow> nat \<Rightarrow> nat \<Rightarrow> nat \<Rightarrow> state \<Rightarrow> py_error + (nat \<times> state)" where
  "phase1_loop [] rows cols pivot_row s = Inr (pivot_row, s)"
| "phase1_loop (col # rest) rows cols pivot_row s =
     (if pivot_row \<ge> rows then Inr (pivot_row, s)
      else bindE (phase1_column rows cols col pivot_row s) (\<lambda>(pivot_row', s').
             phase1_loop rest rows cols pivot_row' s'))"

subsection \<open>\<^verbatim>\<open>solve\<close>: phase 2, back substitution\<close>

text \<open>
  The scan \<^verbatim>\<open>for c in range(n_vars): if matrix[i][c] == 1: pivot_col = c; break\<close>;
  \<open>None\<close> is the value \<^verbatim>\<open>-1\<close> that \<^verbatim>\<open>pivot_col\<close> keeps when nothing is found.
\<close>

fun find_pivot_col :: "rat list \<Rightarrow> nat list \<Rightarrow> py_error + nat option" where
  "find_pivot_col row [] = Inr None"
| "find_pivot_col row (c # cs) =
     bindE (getitem row c) (\<lambda>v. if v = 1 then Inr (Some c) else find_pivot_col row cs)"

definition phase2_row :: "nat \<Rightarrow> nat \<Rightarrow> nat \<Rightarrow> state \<Rightarrow> py_error + state" where
  "phase2_row n_vars cols i s = (case s of (m, out) \<Rightarrow>
     bindE (getitem m i) (\<lambda>row.
     bindE (find_pivot_col row [0..<n_vars]) (\<lambda>pivot_col.
       case pivot_col of
         None \<Rightarrow> Inr (m, out)
       | Some pc \<Rightarrow> subtract_loop (rev [0..<i]) i pc cols (m, out))))"

fun phase2_loop :: "nat list \<Rightarrow> nat \<Rightarrow> nat \<Rightarrow> state \<Rightarrow> py_error + state" where
  "phase2_loop [] n_vars cols s = Inr s"
| "phase2_loop (i # rest) n_vars cols s =
     bindE (phase2_row n_vars cols i s) (\<lambda>s'. phase2_loop rest n_vars cols s')"

subsection \<open>\<^verbatim>\<open>solve\<close>: classification of the final matrix\<close>

definition inconsistent_message :: string where
  "inconsistent_message = ''System is INCONSISTENT (No Solution).''"

definition infinite_message :: string where
  "infinite_message = ''Infinite solutions or trivial system.''"

text \<open>\<^verbatim>\<open>for idx, val in enumerate(solutions): self.log(f"x{idx+1} = {...}")\<close>\<close>

fun report_solutions :: "nat \<Rightarrow> rat list \<Rightarrow> string list \<Rightarrow> string list" where
  "report_solutions idx [] out = out"
| "report_solutions idx (val # vals) out =
     report_solutions (idx + 1) vals
       (log out (''x'' @ str_int (int idx + 1) @ '' = '' @ format_value val))"

text \<open>
  The loop \<^verbatim>\<open>for i in range(rows)\<close> with the list \<^verbatim>\<open>solutions\<close>, followed by the
  final report. The \<^verbatim>\<open>return\<close> inside the loop ends \<^verbatim>\<open>solve\<close>.
\<close>

fun classify :: "nat list \<Rightarrow> rat list list \<Rightarrow> rat list \<Rightarrow> string list \<Rightarrow> py_error + string list" where
  "classify [] m solutions out =
     Inr (if solutions \<noteq> [] then report_solutions 0 solutions out
          else log out infinite_message)"
| "classify (i # rest) m solutions out =
     bindE (getitem m i) (\<lambda>row.
       let is_all_zeros = list_all (\<lambda>x. x = 0) (butlast row) in
       bindE (getlast row) (\<lambda>constant.
         if is_all_zeros \<and> constant \<noteq> 0 then Inr (log out inconsistent_message)
         else if is_all_zeros \<and> constant = 0 then classify rest m solutions out
         else classify rest m (solutions @ [constant]) out))"

subsection \<open>\<^verbatim>\<open>solve\<close>\<close>

text \<open>
  The result of \<^verbatim>\<open>solve\<close> is the list of the strings passed to the log callback, or the
  exception raised.
\<close>

definition solve :: "rat list list \<Rightarrow> rat list \<Rightarrow> py_error + string list" where
  "solve coefficients constants =
     (let rows = length coefficients in
      if rows = 0 then Inr []
      else
        bindE (build_matrix [0..<rows] coefficients constants []) (\<lambda>m.
        bindE (getitem m 0) (\<lambda>row0.
          let cols = length row0;
              n_vars = cols - 1;
              out1 = log [] ''INITIAL SYSTEM:'';
              out2 = print_matrix m ''Augmented Matrix'' out1;
              out3 = log out2 ''\<newline>=== PHASE 1: ROW ECHELON FORM (Gaussian Elimination) ===''
          in
          bindE (phase1_loop [0..<n_vars] rows cols 0 (m, out3)) (\<lambda>(pivot_row, (m1, out4)).
            let out5 = log out4 ''\<newline>>>> Matrix is now in Row Echelon Form (REF).'';
                out6 = log out5 ''\<newline>=== PHASE 2: REDUCED ROW ECHELON FORM (Back Substitution) ===''
            in
            bindE (phase2_loop (rev [0..<rows]) n_vars cols (m1, out6)) (\<lambda>(m2, out7).
              let out8 = log out7 ''\<newline>>>> Matrix is now in Reduced Row Echelon Form (RREF).'';
                  out9 = log out8 ''\<newline>=== FINAL SOLUTION ===''
              in classify [0..<rows] m2 [] out9)))))"

subsection \<open>Reading a fraction back from text (standard library)\<close>

text \<open>
  The constructor \<^verbatim>\<open>Fraction(text)\<close>, which the input side of the program uses, for
  the texts of the shape \<^verbatim>\<open>[sign] digits [/ digits]\<close>: these are the texts that
  \<^verbatim>\<open>format_value\<close> writes. \<open>None\<close> stands for every other outcome (a text of
  another shape, or a zero denominator, on which the constructor raises).
\<close>

definition digit_val :: "char \<Rightarrow> nat option" where
  "digit_val c = map_of
     [(CHR ''0'', 0), (CHR ''1'', 1), (CHR ''2'', 2), (CHR ''3'', 3), (CHR ''4'', 4),
      (CHR ''5'', 5), (CHR ''6'', 6), (CHR ''7'', 7), (CHR ''8'', 8), (CHR ''9'', 9)] c"

fun parse_digits :: "nat \<Rightarrow> string \<Rightarrow> nat option" where
  "parse_digits acc [] = Some acc"
| "parse_digits acc (c # cs) =
     (case digit_val c of None \<Rightarrow> None | Some v \<Rightarrow> parse_digits (10 * acc + v) cs)"

text \<open>\<^verbatim>\<open>int(digits)\<close> on a non-empty run of decimal digits.\<close>

definition parse_nat :: "string \<Rightarrow> nat option" where
  "parse_nat s = (if s = [] then None else parse_digits 0 s)"

definition split_sign :: "string \<Rightarrow> bool \<times> string" where
  "split_sign s = (case s of
       [] \<Rightarrow> (False, s)
     | c # cs \<Rightarrow> if c = CHR ''-'' then (True, cs)
                else if c = CHR ''+'' then (False, cs) else (False, s))"

definition parse_fraction :: "string \<Rightarrow> rat option" where
  "parse_fraction s = (case split_sign s of (negative, body) \<Rightarrow>
     (let num_text = takeWhile (\<lambda>c. c \<noteq> CHR ''/'') body;
          rest = dropWhile (\<lambda>c. c \<noteq> CHR ''/'') body
      in (case parse_nat num_text of
            None \<Rightarrow> None
          | Some n \<Rightarrow>
              (let numerator = (if negative then - int n else int n)
               in (case rest of
                     [] \<Rightarrow> Some (Fract numerator 1)
                   | slash # den_text \<Rightarrow>
                       (case parse_nat den_text of
                          None \<Rightarrow> None
                        | Some d \<Rightarrow>
                            (if d = 0 then None else Some (Fract numerator (int d)))))))))"

subsection \<open>Vocabulary of the properties\<close>

text \<open>
  The lines \<^verbatim>\<open>x<i> = <value>\<close> are the only lines of a transcript that begin with
  the letter \<^verbatim>\<open>x\<close>.
\<close>

definition is_solution_line :: "string \<Rightarrow> bool" where
  "is_solution_line l = (take 1 l = ''x'')"

text \<open>A matrix of \<open>rows\<close> rows, each of \<open>cols\<close> entries.\<close>

definition rectangular :: "nat \<Rightarrow> nat \<Rightarrow> rat list list \<Rightarrow> bool" where
  "rectangular rows cols m = (length m = rows \<and> list_all (\<lambda>row. length row = cols) m)"

text \<open>A row \<^verbatim>\<open>0 ... 0 | c\<close> with \<^verbatim>\<open>c\<close> nonzero.\<close>

definition inconsistent_row :: "rat list \<Rightarrow> bool" where
  "inconsistent_row row = (list_all (\<lambda>x. x = 0) (butlast row) \<and> last row \<noteq> 0)"

text \<open>The denominator of a fraction in lowest terms.\<close>

definition denominator :: "rat \<Rightarrow> int" where
  "denominator x = snd (quotient_of x)"

text \<open>
  The invariant of the loop of \<^verbatim>\<open>limit_denominator\<close> on the fraction \<open>N/D\<close> with the
  bound \<open>M\<close>: \<open>p0/q0\<close> and \<open>p1/q1\<close> are consecutive convergents, \<open>n\<close> and \<open>d\<close> the
  current pair of Euclid's algorithm.
\<close>

definition limit_inv :: "int \<Rightarrow> int \<Rightarrow> int \<Rightarrow> int \<Rightarrow> int \<Rightarrow> int \<Rightarrow> int \<Rightarrow> int \<Rightarrow> int \<Rightarrow> bool" where
  "limit_inv M N D p0 q0 p1 q1 n d =
     (0 \<le> d \<and> 0 \<le> q0 \<and> q0 \<le> M \<and> 0 \<le> q1 \<and> q1 \<le> M \<and> (q1 = 0 \<or> 0 < n)
      \<and> n * q1 + d * q0 = D \<and> n * p1 + d * p0 = N \<and> coprime n d \<and> M < D
      \<and> \<bar>p1 * q0 - p0 * q1\<bar> = 1)"

text \<open>
  The value that \<^verbatim>\<open>limit_denominator\<close> returns (it always returns, see
  \<open>limit_denominator_limited\<close> below).
\<close>

definition limited :: "rat \<Rightarrow> rat" where
  "limited x = (case limit_denominator x of Inr y \<Rightarrow> y | Inl e \<Rightarrow> x)"

section \<open>Properties\<close>

subsection \<open>Basic facts about the exception plumbing\<close>

lemma bindE_Inr [simp]: "bindE (Inr v) f = f v"
  by (simp add: bindE_def)

lemma bindE_Inl [simp]: "bindE (Inl e) f = Inl e"
  by (simp add: bindE_def)

lemma bindE_eq_Inr: "bindE r f = Inr y \<longleftrightarrow> (\<exists>v. r = Inr v \<and> f v = Inr y)"
  by (cases r) simp_all

lemma getitem_in_range [simp]: "i < length xs \<Longrightarrow> getitem xs i = Inr (xs ! i)"
  by (simp add: getitem_def)

lemma setitem_in_range [simp]: "i < length xs \<Longrightarrow> setitem xs i v = Inr (xs[i := v])"
  by (simp add: setitem_def)

lemma getlast_nonempty [simp]: "xs \<noteq> [] \<Longrightarrow> getlast xs = Inr (last xs)"
  by (simp add: getlast_def)

subsection \<open>Classification\<close>

lemma classify_inconsistent:
  assumes "\<forall>i \<in> set idxs. i < length m \<and> m ! i \<noteq> []"
    and "\<exists>i \<in> set idxs. inconsistent_row (m ! i)"
  shows "classify idxs m solutions out = Inr (log out inconsistent_message)"
  using assms
proof (induction idxs arbitrary: solutions)
  case Nil
  then show ?case by simp
next
  case (Cons i rest)
  show ?case
  proof (cases "inconsistent_row (m ! i)")
    case True
    with Cons.prems(1) show ?thesis
      by (simp add: inconsistent_row_def)
  next
    case False
    with Cons.prems(2) have ex: "\<exists>j \<in> set rest. inconsistent_row (m ! j)"
      by auto
    from Cons.prems(1) have ok: "\<forall>j \<in> set rest. j < length m \<and> m ! j \<noteq> []"
      by simp
    have ih: "\<And>sols. classify rest m sols out = Inr (log out inconsistent_message)"
      using Cons.IH [OF ok ex] .
    from False Cons.prems(1) show ?thesis
      by (simp add: inconsistent_row_def ih Let_def)
  qed
qed

text \<open>
  Claim C1. Whenever some row of the final matrix has all coefficient entries zero and
  a nonzero constant, the classification loop logs the INCONSISTENT line and nothing
  else: the transcript grows by exactly that line, whatever solution values earlier
  rows had contributed. For the coefficients \<open>[[1,1],[1,1]]\<close> and the constants
  \<open>[2,3]\<close>, \<^verbatim>\<open>solve\<close> ends with the INCONSISTENT line and logs no \<^verbatim>\<open>x<i> =\<close> line.
\<close>

theorem inconsistent_system_reported:
  "((\<forall>row \<in> set m. row \<noteq> []) \<and> (\<exists>row \<in> set m. inconsistent_row row)
      \<longrightarrow> classify [0..<length m] m [] out = Inr (log out inconsistent_message))
   \<and> (case solve [[1, 1], [1, 1]] [2, 3] of
         Inl e \<Rightarrow> False
       | Inr t \<Rightarrow> last t = inconsistent_message @ ''\<newline>'' \<and> filter is_solution_line t = [])"
proof
  show "(\<forall>row \<in> set m. row \<noteq> []) \<and> (\<exists>row \<in> set m. inconsistent_row row)
      \<longrightarrow> classify [0..<length m] m [] out = Inr (log out inconsistent_message)"
  proof
    assume h: "(\<forall>row \<in> set m. row \<noteq> []) \<and> (\<exists>row \<in> set m. inconsistent_row row)"
    then have "\<forall>i \<in> set [0..<length m]. i < length m \<and> m ! i \<noteq> []"
      by simp
    moreover have "\<exists>i \<in> set [0..<length m]. inconsistent_row (m ! i)"
    proof -
      from h obtain row where "row \<in> set m" and bad: "inconsistent_row row"
        by blast
      then obtain i where "i < length m" and "m ! i = row"
        by (auto simp: in_set_conv_nth)
      with bad show ?thesis
        by (intro bexI [of _ i]) simp_all
    qed
    ultimately show "classify [0..<length m] m [] out = Inr (log out inconsistent_message)"
      by (rule classify_inconsistent)
  qed
next
  show "case solve [[1, 1], [1, 1]] [2, 3] of
         Inl e \<Rightarrow> False
       | Inr t \<Rightarrow> last t = inconsistent_message @ ''\<newline>'' \<and> filter is_solution_line t = []"
    by code_simp
qed

theorem inconsistent_system_reported_witness:
  "classify [0..<length [[1, 0, 2], [0, 0, 1 :: rat]]] [[1, 0, 2], [0, 0, 1]] [] []
     = Inr (log [] inconsistent_message)"
  using inconsistent_system_reported [of "[[1, 0, 2], [0, 0, 1]]" "[]"]
  by (simp add: inconsistent_row_def)

subsection \<open>The three systems of the test list\<close>

text \<open>
  Claim C3. For the coefficients \<open>[[2,1],[1,3]]\<close> and the constants \<open>[5,10]\<close>,
  \<^verbatim>\<open>solve\<close> returns normally; the solution lines of its transcript are exactly
  \<^verbatim>\<open>x1 = 1\<close> and \<^verbatim>\<open>x2 = 3\<close>, they are its last two lines, and the transcript
  contains the record of a row scaling (row 1 divided by 2) and the record of a row
  subtraction (1 times row 1 subtracted from row 2).
\<close>

theorem simple_elimination_example:
  "case solve [[2, 1], [1, 3]] [5, 10] of
     Inl e \<Rightarrow> False
   | Inr t \<Rightarrow>
       filter is_solution_line t = [''x1 = 1\<newline>'', ''x2 = 3\<newline>'']
       \<and> drop (length t - 2) t = [''x1 = 1\<newline>'', ''x2 = 3\<newline>'']
       \<and> scale_message 0 2 @ ''\<newline>'' \<in> set t
       \<and> subtract_message 1 1 0 @ ''\<newline>'' \<in> set t"
  by code_simp

text \<open>
  The system \<open>x + y = 3\<close>, \<open>2x + 2y = 6\<close> of claim C2: the whole transcript of
  \<^verbatim>\<open>solve\<close>. The second row is reduced to zeros, the first row \<open>[1, 1, 3]\<close> is not a
  zero row, so its constant is reported as \<^verbatim>\<open>x1 = 3\<close>; the notice
  \<^verbatim>\<open>Infinite solutions or trivial system.\<close> is not logged.
\<close>

theorem redundant_system_transcript:
  "solve [[1, 1], [2, 2]] [3, 6] = Inr
    [''INITIAL SYSTEM:\<newline>'',
     ''\<newline>--- Augmented Matrix ---\<newline>'',
     '' [       1,        1,        3]\<newline>'',
     '' [       2,        2,        6]\<newline>'',
     ''----------------------------------------\<newline>'',
     ''\<newline>=== PHASE 1: ROW ECHELON FORM (Gaussian Elimination) ===\<newline>'',
     ''OPERATION: R2 <--- R2 - (2 * R1)\<newline>'',
     ''\<newline>--- Current Matrix State ---\<newline>'',
     '' [       1,        1,        3]\<newline>'',
     '' [       0,        0,        0]\<newline>'',
     ''----------------------------------------\<newline>'',
     ''Pivot at R2, C2 is zero. Swapping disabled, skipping column.\<newline>'',
     ''\<newline>>>> Matrix is now in Row Echelon Form (REF).\<newline>'',
     ''\<newline>=== PHASE 2: REDUCED ROW ECHELON FORM (Back Substitution) ===\<newline>'',
     ''\<newline>>>> Matrix is now in Reduced Row Echelon Form (RREF).\<newline>'',
     ''\<newline>=== FINAL SOLUTION ===\<newline>'',
     ''x1 = 3\<newline>'']"
  by code_simp

subsection \<open>Row operations on a rectangular matrix never raise and keep its shape\<close>

lemma mapE_Inr:
  assumes "\<And>x. x \<in> set xs \<Longrightarrow> f x = Inr (g x)"
  shows "mapE f xs = Inr (map g xs)"
  using assms by (induction xs) simp_all

lemma scale_row_nonzero:
  "pivot_val \<noteq> 0 \<Longrightarrow> scale_row row pivot_val = Inr (map (\<lambda>x. x / pivot_val) row)"
  unfolding scale_row_def by (rule mapE_Inr) (simp add: frac_div_def)

lemma subtract_row_in_range:
  assumes "r < length m" "p < length m" "cols \<le> length (m ! r)" "cols \<le> length (m ! p)"
  shows "subtract_row m r p factor cols
           = Inr (map (\<lambda>c. m ! r ! c - factor * (m ! p ! c)) [0..<cols])"
  unfolding subtract_row_def using assms by (intro mapE_Inr) simp

lemma rectangular_nth: "rectangular rows cols m \<Longrightarrow> i < rows \<Longrightarrow> length (m ! i) = cols"
  by (simp add: rectangular_def list_all_length)

lemma rectangular_length: "rectangular rows cols m \<Longrightarrow> length m = rows"
  by (simp add: rectangular_def)

lemma rectangular_update:
  "rectangular rows cols m \<Longrightarrow> length row = cols \<Longrightarrow> rectangular rows cols (m[i := row])"
  using set_update_subset_insert [of m i row] by (auto simp: rectangular_def list_all_iff)

lemma subtract_loop_rectangular:
  assumes "rectangular rows cols m" "\<forall>r \<in> set rs. r < rows" "p < rows" "col < cols"
  shows "\<exists>m' out'. subtract_loop rs p col cols (m, out) = Inr (m', out')
           \<and> rectangular rows cols m'"
  using assms
proof (induction rs arbitrary: m out)
  case Nil
  then show ?case by simp
next
  case (Cons r rs)
  from Cons.prems have r: "r < length m" and p: "p < length m"
    and lr: "length (m ! r) = cols" and lp: "length (m ! p) = cols"
    by (simp_all add: rectangular_length rectangular_nth)
  let ?new = "map (\<lambda>c. m ! r ! c - (m ! r ! col) * (m ! p ! c)) [0..<cols]"
  have sub: "subtract_row m r p (m ! r ! col) cols = Inr ?new"
    using r p lr lp by (simp add: subtract_row_in_range)
  have rect': "rectangular rows cols (m[r := ?new])"
    using Cons.prems(1) by (rule rectangular_update) simp
  from Cons.prems have rest: "\<forall>r \<in> set rs. r < rows"
    by simp
  show ?case
  proof (cases "m ! r ! col = 0")
    case True
    with Cons.IH [OF Cons.prems(1) rest Cons.prems(3,4)] r lr Cons.prems(4) show ?thesis
      by simp
  next
    case False
    with Cons.IH [OF rect' rest Cons.prems(3,4)] r lr Cons.prems(4) sub show ?thesis
      by simp
  qed
qed

lemma normalize_pivot_rectangular:
  assumes "rectangular rows cols m" "pivot_row < rows" "pivot_val \<noteq> 0"
  shows "\<exists>m' out'. normalize_pivot pivot_row pivot_val (m, out) = Inr (m', out')
           \<and> rectangular rows cols m'"
proof (cases "pivot_val = 1")
  case True
  with assms(1) show ?thesis
    by (simp add: normalize_pivot_def)
next
  case False
  from assms have pr: "pivot_row < length m" and len: "length (m ! pivot_row) = cols"
    by (simp_all add: rectangular_length rectangular_nth)
  have "rectangular rows cols (m[pivot_row := map (\<lambda>x. x / pivot_val) (m ! pivot_row)])"
    using assms(1) by (rule rectangular_update) (simp add: len)
  with False pr assms(3) show ?thesis
    by (simp add: normalize_pivot_def scale_row_nonzero)
qed

lemma phase1_column_rectangular:
  assumes "rectangular rows cols m" "pivot_row < rows" "col < cols"
  shows "\<exists>pivot_row' m' out'. phase1_column rows cols col pivot_row (m, out) = Inr (pivot_row', (m', out'))
           \<and> rectangular rows cols m'
           \<and> pivot_row' = (if m ! pivot_row ! col = 0 then pivot_row else pivot_row + 1)"
proof (cases "m ! pivot_row ! col = 0")
  case True
  with assms show ?thesis
    by (simp add: phase1_column_def rectangular_length rectangular_nth)
next
  case False
  from normalize_pivot_rectangular [OF assms(1,2) False, of out]
  obtain m1 out1 where n: "normalize_pivot pivot_row (m ! pivot_row ! col) (m, out) = Inr (m1, out1)"
    and r1: "rectangular rows cols m1"
    by blast
  have "\<forall>r \<in> set [pivot_row + 1..<rows]. r < rows"
    by simp
  from subtract_loop_rectangular [OF r1 this assms(2,3), of out1]
  obtain m2 out2 where s: "subtract_loop [pivot_row + 1..<rows] pivot_row col cols (m1, out1) = Inr (m2, out2)"
    and r2: "rectangular rows cols m2"
    by blast
  from False assms n s r2 show ?thesis
    by (simp add: phase1_column_def rectangular_length rectangular_nth)
qed

lemma phase1_loop_rectangular:
  assumes "rectangular rows cols m" "\<forall>c \<in> set cs. c < cols"
  shows "\<exists>pivot_row' m' out'. phase1_loop cs rows cols pivot_row (m, out) = Inr (pivot_row', (m', out'))
           \<and> rectangular rows cols m'"
  using assms
proof (induction cs arbitrary: m out pivot_row)
  case Nil
  then show ?case by simp
next
  case (Cons c cs)
  show ?case
  proof (cases "pivot_row \<ge> rows")
    case True
    with Cons.prems(1) show ?thesis by simp
  next
    case False
    then have pr: "pivot_row < rows" by simp
    from Cons.prems(2) have c: "c < cols" and rest: "\<forall>c \<in> set cs. c < cols"
      by simp_all
    from phase1_column_rectangular [OF Cons.prems(1) pr c, of out]
    obtain pr1 m1 out1 where
      col: "phase1_column rows cols c pivot_row (m, out) = Inr (pr1, (m1, out1))"
      and r1: "rectangular rows cols m1"
      by blast
    from Cons.IH [OF r1 rest, of pr1 out1] False col show ?thesis
      by simp
  qed
qed

lemma find_pivot_col_find:
  assumes "\<forall>c \<in> set cs. c < length row"
  shows "find_pivot_col row cs = Inr (List.find (\<lambda>c. row ! c = 1) cs)"
  using assms by (induction cs) simp_all

lemma phase2_row_rectangular:
  assumes "rectangular rows cols m" "i < rows" "n_vars \<le> cols"
  shows "\<exists>m' out'. phase2_row n_vars cols i (m, out) = Inr (m', out') \<and> rectangular rows cols m'"
proof -
  from assms have i: "i < length m" and len: "length (m ! i) = cols"
    by (simp_all add: rectangular_length rectangular_nth)
  have f: "find_pivot_col (m ! i) [0..<n_vars] = Inr (List.find (\<lambda>c. m ! i ! c = 1) [0..<n_vars])"
    using assms(3) len by (intro find_pivot_col_find) simp
  show ?thesis
  proof (cases "List.find (\<lambda>c. m ! i ! c = 1) [0..<n_vars]")
    case None
    with i f assms(1) show ?thesis
      by (simp add: phase2_row_def)
  next
    case (Some pc)
    then have "pc \<in> set [0..<n_vars]"
      by (auto simp: find_Some_iff)
    with assms(3) have pc: "pc < cols" by simp
    have "\<forall>r \<in> set (rev [0..<i]). r < rows"
      using assms(2) by simp
    from subtract_loop_rectangular [OF assms(1) this assms(2) pc, of out] Some i f
    show ?thesis
      by (simp add: phase2_row_def)
  qed
qed

lemma phase2_loop_rectangular:
  assumes "rectangular rows cols m" "\<forall>i \<in> set idxs. i < rows" "n_vars \<le> cols"
  shows "\<exists>m' out'. phase2_loop idxs n_vars cols (m, out) = Inr (m', out') \<and> rectangular rows cols m'"
  using assms
proof (induction idxs arbitrary: m out)
  case Nil
  then show ?case by simp
next
  case (Cons i idxs)
  from Cons.prems(2) have i: "i < rows" and rest: "\<forall>i \<in> set idxs. i < rows"
    by simp_all
  from phase2_row_rectangular [OF Cons.prems(1) i Cons.prems(3), of out]
  obtain m1 out1 where row: "phase2_row n_vars cols i (m, out) = Inr (m1, out1)"
    and r1: "rectangular rows cols m1"
    by blast
  from Cons.IH [OF r1 rest Cons.prems(3), of out1] row show ?case
    by simp
qed


subsection \<open>Phase 1: a zero pivot skips the column\<close>

lemma phase1_column_zero:
  assumes "pivot_row < length m" "col < length (m ! pivot_row)" "m ! pivot_row ! col = 0"
  shows "phase1_column rows cols col pivot_row (m, out)
           = Inr (pivot_row, (m, log out (zero_pivot_message pivot_row col)))"
  using assms by (simp add: phase1_column_def)

lemma phase1_column_advance:
  assumes "pivot_row < length m" "col < length (m ! pivot_row)" "m ! pivot_row ! col \<noteq> 0"
    and "phase1_column rows cols col pivot_row (m, out) = Inr (pivot_row', s')"
  shows "pivot_row' = pivot_row + 1"
  using assms by (auto simp: phase1_column_def bindE_eq_Inr)

text \<open>
  Claim C4. In phase 1, when the entry at (\<^verbatim>\<open>pivot_row\<close>, \<^verbatim>\<open>col\<close>) is exactly zero,
  the loop body logs the zero-pivot line and does nothing else: the matrix is the same
  (no row is swapped or changed), \<^verbatim>\<open>pivot_row\<close> keeps its value, and the loop goes on
  with the next column. When the entry is nonzero, a body that returns has advanced
  \<^verbatim>\<open>pivot_row\<close> by exactly one, and on a rectangular matrix it does return.
\<close>

theorem zero_pivot_column_skipped:
  assumes "length m = rows" and "pivot_row < rows" and "col < length (m ! pivot_row)"
  shows "(m ! pivot_row ! col = 0 \<longrightarrow>
            phase1_column rows cols col pivot_row (m, out)
              = Inr (pivot_row, (m, log out (zero_pivot_message pivot_row col)))
            \<and> phase1_loop (col # rest) rows cols pivot_row (m, out)
              = phase1_loop rest rows cols pivot_row
                  (m, log out (zero_pivot_message pivot_row col)))
       \<and> (m ! pivot_row ! col \<noteq> 0 \<longrightarrow>
            (\<forall>pivot_row' s'. phase1_column rows cols col pivot_row (m, out) = Inr (pivot_row', s')
               \<longrightarrow> pivot_row' = pivot_row + 1)
            \<and> (rectangular rows cols m \<and> col < cols \<longrightarrow>
                 (\<exists>s'. phase1_column rows cols col pivot_row (m, out) = Inr (pivot_row + 1, s'))))"
proof (intro conjI impI allI)
  assume z: "m ! pivot_row ! col = 0"
  from assms z show col0: "phase1_column rows cols col pivot_row (m, out)
      = Inr (pivot_row, (m, log out (zero_pivot_message pivot_row col)))"
    by (simp add: phase1_column_zero)
  from assms(2) col0 show "phase1_loop (col # rest) rows cols pivot_row (m, out)
      = phase1_loop rest rows cols pivot_row (m, log out (zero_pivot_message pivot_row col))"
    by simp
next
  fix pivot_row' s'
  assume "m ! pivot_row ! col \<noteq> 0"
    and "phase1_column rows cols col pivot_row (m, out) = Inr (pivot_row', s')"
  with assms show "pivot_row' = pivot_row + 1"
    using phase1_column_advance [of pivot_row m col rows cols out pivot_row' s'] by simp
next
  assume nz: "m ! pivot_row ! col \<noteq> 0" and r: "rectangular rows cols m \<and> col < cols"
  from phase1_column_rectangular [of rows cols m pivot_row col out] r assms(2) nz
  show "\<exists>s'. phase1_column rows cols col pivot_row (m, out) = Inr (pivot_row + 1, s')"
    by auto
qed

theorem zero_pivot_column_skipped_witness:
  "phase1_column 2 3 0 0 ([[0, 1, 2], [1, 0, 3]], [])
     = Inr (0, ([[0, 1, 2], [1, 0, 3]], log [] (zero_pivot_message 0 0)))
   \<and> (\<exists>s'. phase1_column 2 3 1 0 ([[0, 1, 2], [1, 0, 3]], []) = Inr (1, s'))"
proof -
  have r: "rectangular 2 3 [[0, 1, 2], [1, 0, 3]]"
    by (simp add: rectangular_def)
  from zero_pivot_column_skipped [of "[[0, 1, 2], [1, 0, 3]]" 2 0 0 3 "[]" "[]"]
  have a: "phase1_column 2 3 0 0 ([[0, 1, 2], [1, 0, 3]], [])
     = Inr (0, ([[0, 1, 2], [1, 0, 3]], log [] (zero_pivot_message 0 0)))"
    by simp
  from zero_pivot_column_skipped [of "[[0, 1, 2], [1, 0, 3]]" 2 0 1 3 "[]" "[]"] r
  have b: "\<exists>s'. phase1_column 2 3 1 0 ([[0, 1, 2], [1, 0, 3]], []) = Inr (1, s')"
    by simp
  from a b show ?thesis ..
qed

subsection \<open>Phase 2: pivot detection\<close>

lemma find_upt_Some:
  "List.find P [0..<n] = Some k \<longleftrightarrow> k < n \<and> P k \<and> (\<forall>j<k. \<not> P j)"
  by (auto simp: find_Some_iff)

lemma find_upt_None:
  "List.find P [0..<n] = None \<longleftrightarrow> (\<forall>j<n. \<not> P j)"
  by (auto simp: find_None_iff)

text \<open>
  Claim C5. In phase 2, the pivot column found for row \<open>i\<close> is the leftmost
  coefficient column whose entry is exactly 1, and the rows above are then treated with
  that column; a row with no coefficient entry equal to 1 is skipped: the state (matrix
  and transcript) is returned as it was, so no operation touches the rows above.
\<close>

theorem back_substitution_pivot_detection:
  assumes "i < length m" and "n_vars \<le> length (m ! i)"
  shows "(\<forall>pc. find_pivot_col (m ! i) [0..<n_vars] = Inr (Some pc)
            \<longleftrightarrow> pc < n_vars \<and> m ! i ! pc = 1 \<and> (\<forall>c<pc. m ! i ! c \<noteq> 1))
       \<and> (\<forall>pc. find_pivot_col (m ! i) [0..<n_vars] = Inr (Some pc)
            \<longrightarrow> phase2_row n_vars cols i (m, out)
                  = subtract_loop (rev [0..<i]) i pc cols (m, out))
       \<and> ((\<forall>c<n_vars. m ! i ! c \<noteq> 1)
            \<longrightarrow> find_pivot_col (m ! i) [0..<n_vars] = Inr None
                \<and> phase2_row n_vars cols i (m, out) = Inr (m, out))"
proof -
  have f: "find_pivot_col (m ! i) [0..<n_vars]
             = Inr (List.find (\<lambda>c. m ! i ! c = 1) [0..<n_vars])"
    using assms(2) by (intro find_pivot_col_find) simp
  have 1: "\<forall>pc. find_pivot_col (m ! i) [0..<n_vars] = Inr (Some pc)
            \<longleftrightarrow> pc < n_vars \<and> m ! i ! pc = 1 \<and> (\<forall>c<pc. m ! i ! c \<noteq> 1)"
    by (simp add: f find_upt_Some)
  have 2: "\<forall>pc. find_pivot_col (m ! i) [0..<n_vars] = Inr (Some pc)
            \<longrightarrow> phase2_row n_vars cols i (m, out)
                  = subtract_loop (rev [0..<i]) i pc cols (m, out)"
    using assms(1) by (simp add: phase2_row_def)
  have 3: "(\<forall>c<n_vars. m ! i ! c \<noteq> 1)
            \<longrightarrow> find_pivot_col (m ! i) [0..<n_vars] = Inr None
                \<and> phase2_row n_vars cols i (m, out) = Inr (m, out)"
  proof
    assume "\<forall>c<n_vars. m ! i ! c \<noteq> 1"
    then have "List.find (\<lambda>c. m ! i ! c = 1) [0..<n_vars] = None"
      by (simp add: find_upt_None)
    with f assms(1) show "find_pivot_col (m ! i) [0..<n_vars] = Inr None
        \<and> phase2_row n_vars cols i (m, out) = Inr (m, out)"
      by (simp add: phase2_row_def)
  qed
  from 1 2 3 show ?thesis by blast
qed

theorem back_substitution_pivot_detection_witness:
  "find_pivot_col ([[1, 2, 5], [0, 3, 1 :: rat]] ! 0) [0..<2] = Inr (Some 0)
   \<and> phase2_row 2 3 1 ([[1, 2, 5], [0, 3, 1]], []) = Inr ([[1, 2, 5], [0, 3, 1]], [])"
  using back_substitution_pivot_detection [of 0 "[[1, 2, 5], [0, 3, 1]]" 2 3 "[]"]
    back_substitution_pivot_detection [of 1 "[[1, 2, 5], [0, 3, 1]]" 2 3 "[]"]
  by (simp add: less_Suc_eq numeral_2_eq_2)

subsection \<open>The shape of the matrix is invariant\<close>

text \<open>
  Claim C9. On a matrix of \<open>rows\<close> rows of \<open>n_vars + 1\<close> entries each, the scaling of
  a row by a nonzero pivot value and the subtraction of a multiple of one row from
  another both succeed and yield a row of \<open>n_vars + 1\<close> entries whose last entry is
  computed from the last entries alone (the constant column stays the last column);
  replacing the old row by it leaves a matrix of the same shape. Hence the whole of
  phase 1 and the whole of phase 2 return a matrix of the same shape. (Every entry is a
  rational by its type.)
\<close>

theorem elementary_operations_preserve_shape:
  assumes "rectangular rows (n_vars + 1) m"
  shows "(pivot_row < rows \<and> pivot_val \<noteq> 0 \<longrightarrow>
           (\<exists>new_row. scale_row (m ! pivot_row) pivot_val = Inr new_row
              \<and> length new_row = n_vars + 1
              \<and> last new_row = last (m ! pivot_row) / pivot_val
              \<and> rectangular rows (n_vars + 1) (m[pivot_row := new_row])))
       \<and> (r < rows \<and> p < rows \<longrightarrow>
           (\<exists>new_row. subtract_row m r p factor (n_vars + 1) = Inr new_row
              \<and> length new_row = n_vars + 1
              \<and> last new_row = last (m ! r) - factor * last (m ! p)
              \<and> rectangular rows (n_vars + 1) (m[r := new_row])))
       \<and> (\<exists>pivot_row' m' out'.
             phase1_loop [0..<n_vars] rows (n_vars + 1) 0 (m, out) = Inr (pivot_row', (m', out'))
             \<and> rectangular rows (n_vars + 1) m')
       \<and> (\<exists>m' out'.
             phase2_loop (rev [0..<rows]) n_vars (n_vars + 1) (m, out) = Inr (m', out')
             \<and> rectangular rows (n_vars + 1) m')"
proof (intro conjI impI)
  assume h: "pivot_row < rows \<and> pivot_val \<noteq> 0"
  let ?row = "m ! pivot_row"
  from assms h have len: "length ?row = n_vars + 1"
    by (simp add: rectangular_nth)
  then have ne: "?row \<noteq> []"
    by auto
  have "scale_row ?row pivot_val = Inr (map (\<lambda>x. x / pivot_val) ?row)"
    using h by (simp add: scale_row_nonzero)
  moreover have "last (map (\<lambda>x. x / pivot_val) ?row) = last ?row / pivot_val"
    using ne by (simp add: last_map)
  moreover have "rectangular rows (n_vars + 1) (m[pivot_row := map (\<lambda>x. x / pivot_val) ?row])"
    using assms by (rule rectangular_update) (simp add: len)
  ultimately show "\<exists>new_row. scale_row ?row pivot_val = Inr new_row
              \<and> length new_row = n_vars + 1
              \<and> last new_row = last ?row / pivot_val
              \<and> rectangular rows (n_vars + 1) (m[pivot_row := new_row])"
    using len by simp
next
  assume h: "r < rows \<and> p < rows"
  from assms h have r: "r < length m" and p: "p < length m"
    and lr: "length (m ! r) = n_vars + 1" and lp: "length (m ! p) = n_vars + 1"
    by (simp_all add: rectangular_length rectangular_nth)
  let ?new = "map (\<lambda>c. m ! r ! c - factor * (m ! p ! c)) [0..<n_vars + 1]"
  have "subtract_row m r p factor (n_vars + 1) = Inr ?new"
    using r p lr lp by (simp add: subtract_row_in_range)
  moreover have "last ?new = last (m ! r) - factor * last (m ! p)"
  proof -
    from lr have "m ! r \<noteq> []" by auto
    then have a: "last (m ! r) = m ! r ! n_vars"
      using lr by (simp add: last_conv_nth)
    from lp have "m ! p \<noteq> []" by auto
    then have b: "last (m ! p) = m ! p ! n_vars"
      using lp by (simp add: last_conv_nth)
    show ?thesis
      by (simp add: a b)
  qed
  moreover have "rectangular rows (n_vars + 1) (m[r := ?new])"
    using assms by (rule rectangular_update) simp
  ultimately show "\<exists>new_row. subtract_row m r p factor (n_vars + 1) = Inr new_row
              \<and> length new_row = n_vars + 1
              \<and> last new_row = last (m ! r) - factor * last (m ! p)
              \<and> rectangular rows (n_vars + 1) (m[r := new_row])"
    by simp
next
  show "\<exists>pivot_row' m' out'.
      phase1_loop [0..<n_vars] rows (n_vars + 1) 0 (m, out) = Inr (pivot_row', (m', out'))
      \<and> rectangular rows (n_vars + 1) m'"
    using assms by (rule phase1_loop_rectangular) simp
next
  show "\<exists>m' out'.
      phase2_loop (rev [0..<rows]) n_vars (n_vars + 1) (m, out) = Inr (m', out')
      \<and> rectangular rows (n_vars + 1) m'"
    using assms by (rule phase2_loop_rectangular) simp_all
qed

theorem elementary_operations_preserve_shape_witness:
  "rectangular 2 (1 + 1) [[2, 4], [1, 3]]
   \<and> (\<exists>new_row. scale_row ([[2, 4], [1, 3]] ! 0) 2 = Inr new_row
        \<and> length new_row = 1 + 1 \<and> rectangular 2 (1 + 1) ([[2, 4], [1, 3]][0 := new_row]))
   \<and> (\<exists>new_row. subtract_row [[2, 4], [1, 3]] 1 0 1 (1 + 1) = Inr new_row
        \<and> length new_row = 1 + 1 \<and> rectangular 2 (1 + 1) ([[2, 4], [1, 3]][1 := new_row]))"
proof -
  have r: "rectangular 2 (1 + 1) [[2, 4], [1, 3]]"
    by (simp add: rectangular_def)
  from elementary_operations_preserve_shape [OF r, of 0 2 1 0 1 "[]"] r
  show ?thesis
    by auto
qed

subsection \<open>\<^verbatim>\<open>limit_denominator\<close> returns, and returns the closest fraction\<close>

lemma limit_inv_divisor_pos:
  assumes "limit_inv M N D p0 q0 p1 q1 n d"
  shows "0 < d"
proof (rule ccontr)
  assume "\<not> 0 < d"
  with assms have d: "d = 0"
    by (simp add: limit_inv_def)
  from assms d have unit: "\<bar>n\<bar> = 1"
    by (simp add: limit_inv_def)
  from assms d have eq: "n * q1 = D" and bounds: "0 \<le> q1" "q1 \<le> M" "M < D" "0 \<le> q0" "q0 \<le> M"
    and pos: "q1 = 0 \<or> 0 < n"
    by (simp_all add: limit_inv_def)
  from eq bounds have "q1 \<noteq> 0"
    by auto
  with pos unit have "n = 1"
    by simp
  with eq bounds show False
    by simp
qed

lemma limit_inv_step:
  assumes inv: "limit_inv M N D p0 q0 p1 q1 n d"
    and go: "\<not> M < q0 + (n div d) * q1"
  shows "limit_inv M N D p1 q1 (p0 + (n div d) * p1) (q0 + (n div d) * q1) d (n - (n div d) * d)"
proof -
  let ?a = "n div d"
  from inv have d: "0 < d"
    by (rule limit_inv_divisor_pos)
  have m: "n - ?a * d = n mod d"
    by (simp add: minus_div_mult_eq_mod)
  from inv have facts: "0 \<le> q0" "q0 \<le> M" "0 \<le> q1" "q1 \<le> M" "q1 = 0 \<or> 0 < n"
    "n * q1 + d * q0 = D" "n * p1 + d * p0 = N" "coprime n d" "M < D" "\<bar>p1 * q0 - p0 * q1\<bar> = 1"
    by (simp_all add: limit_inv_def)
  have q2: "0 \<le> q0 + ?a * q1"
  proof (cases "q1 = 0")
    case True
    with facts show ?thesis by simp
  next
    case False
    with facts have "0 < n" by simp
    with d have "0 \<le> ?a"
      by (simp add: pos_imp_zdiv_nonneg_iff)
    with facts show ?thesis by simp
  qed
  have e1: "d * (q0 + ?a * q1) + (n - ?a * d) * q1 = D"
    using facts(6) by (simp add: algebra_simps)
  have e2: "d * (p0 + ?a * p1) + (n - ?a * d) * p1 = N"
    using facts(7) by (simp add: algebra_simps)
  have cop: "coprime d (n - ?a * d)"
    unfolding m using facts(8) d by (simp add: coprime_commute)
  have det: "\<bar>(p0 + ?a * p1) * q1 - p1 * (q0 + ?a * q1)\<bar> = 1"
  proof -
    have "(p0 + ?a * p1) * q1 - p1 * (q0 + ?a * q1) = - (p1 * q0 - p0 * q1)"
      by (simp add: algebra_simps)
    with facts(10) show ?thesis by simp
  qed
  have "0 \<le> n - ?a * d"
    unfolding m using d by simp
  with d facts q2 go e1 e2 cop det show ?thesis
    unfolding limit_inv_def by simp
qed

lemma limit_loop_exit:
  assumes "limit_inv M N D p0 q0 p1 q1 n d"
  shows "\<exists>p0' q0' p1' q1' n' d'.
           limit_loop M p0 q0 p1 q1 n d = Inr (p0', q0', p1', q1', n', d')
           \<and> limit_inv M N D p0' q0' p1' q1' n' d'
           \<and> M < q0' + (n' div d') * q1'"
  using assms
proof (induction M p0 q0 p1 q1 n d rule: limit_loop.induct)
  case (1 M p0 q0 p1 q1 n d)
  from "1.prems" have d: "d \<noteq> 0"
    using limit_inv_divisor_pos by fastforce
  show ?case
  proof (cases "M < q0 + (n div d) * q1")
    case True
    with d "1.prems" show ?thesis
      by (subst limit_loop.simps) (simp add: Let_def)
  next
    case False
    from limit_inv_step [OF "1.prems" False]
    have "limit_inv M N D p1 q1 (p0 + (n div d) * p1) (q0 + (n div d) * q1) d (n - (n div d) * d)" .
    from "1.IH" [OF d refl refl False this] d False show ?thesis
      by (subst limit_loop.simps) (simp add: Let_def)
  qed
qed

lemma denominator_pos: "0 < denominator x"
  by (simp add: denominator_def quotient_of_denom_pos')

lemma denominator_Fract_le:
  assumes "0 < q"
  shows "denominator (Fract p q) \<le> q"
proof -
  have "q div gcd p q \<le> q"
    using assms by (rule int_div_le_self)
  with assms show ?thesis
    by (simp add: denominator_def quotient_of_Fract Rat.normalize_def Let_def)
qed

lemma limit_inv_init:
  assumes "quotient_of x = (N, D)" "1 \<le> M" "M < D"
  shows "limit_inv M N D 0 1 1 0 N D"
  using assms quotient_of_coprime [OF assms(1)] by (simp add: limit_inv_def)

lemma limit_exit_facts:
  assumes inv: "limit_inv M N D p0 q0 p1 q1 n d"
    and brk: "M < q0 + (n div d) * q1"
  defines "k \<equiv> (M - q0) div q1"
  shows "0 < q1" and "0 < q0 + k * q1" and "q0 + k * q1 \<le> M" and "M < (q0 + k * q1) + q1"
    and "0 < n - k * d" and "0 < d" and "0 < D"
proof -
  from inv have facts: "0 \<le> q0" "q0 \<le> M" "0 \<le> q1" "q1 \<le> M" "q1 = 0 \<or> 0 < n" "M < D"
    by (simp_all add: limit_inv_def)
  from inv show d: "0 < d"
    by (rule limit_inv_divisor_pos)
  from facts show "0 < D"
    by simp
  have "q1 \<noteq> 0"
    using brk facts by auto
  with facts show q1: "0 < q1"
    by simp
  from q1 facts have n: "0 < n"
    by simp
  have split: "M - q0 = q1 * k + (M - q0) mod q1"
    unfolding k_def by simp
  have r0: "0 \<le> (M - q0) mod q1" and r1: "(M - q0) mod q1 < q1"
    using q1 by simp_all
  from split r0 show le: "q0 + k * q1 \<le> M"
    by (simp add: algebra_simps)
  from split r1 show gt: "M < (q0 + k * q1) + q1"
    by (simp add: algebra_simps)
  have k0: "0 \<le> k"
    unfolding k_def using q1 facts by (simp add: pos_imp_zdiv_nonneg_iff)
  show "0 < q0 + k * q1"
  proof (cases "k = 0")
    case True
    with gt facts show ?thesis by simp
  next
    case False
    with k0 have "1 \<le> k" by simp
    then have "1 * q1 \<le> k * q1"
      using q1 by (intro mult_right_mono) simp_all
    with q1 facts show ?thesis by linarith
  qed
  have "k * q1 < (n div d) * q1"
    using le brk by simp
  then have "k < n div d"
    using q1 by (simp add: mult_less_cancel_right)
  then have "k + 1 \<le> n div d"
    by simp
  then have "(k + 1) * d \<le> (n div d) * d"
    using d by (intro mult_right_mono) simp_all
  moreover have "n = (n div d) * d + n mod d"
    by simp
  moreover have "0 \<le> n mod d"
    using d by simp
  moreover have "(k + 1) * d = k * d + d"
    by (simp add: algebra_simps)
  ultimately show "0 < n - k * d"
    using d by linarith
qed

text \<open>
  Two fractions \<open>A/B < C/E\<close> with \<open>C * B - A * E = 1\<close> have no fraction of denominator
  below \<open>B + E\<close> strictly between them.
\<close>

lemma between_neighbours:
  fixes A B C E :: int and r :: rat
  assumes "0 < B" "0 < E" "C * B - A * E = 1"
    and "denominator r < B + E"
  shows "r \<le> of_int A / of_int B \<or> of_int C / of_int E \<le> r"
proof (rule ccontr)
  assume neg: "\<not> (r \<le> of_int A / of_int B \<or> of_int C / of_int E \<le> r)"
  obtain u v where q: "quotient_of r = (u, v)"
    by (cases "quotient_of r")
  then have v: "0 < v" and r: "r = of_int u / of_int v"
    by (simp_all add: quotient_of_denom_pos quotient_of_div)
  from q assms(4) have small: "v < B + E"
    by (simp add: denominator_def)
  from neg have "(of_int A :: rat) / of_int B < of_int u / of_int v"
    by (simp add: r)
  then have "(of_int (A * v) :: rat) < of_int (u * B)"
    using assms(1) v by (simp add: field_simps)
  then have 1: "A * v < u * B"
    by (simp only: of_int_less_iff)
  from neg have "(of_int u :: rat) / of_int v < of_int C / of_int E"
    by (simp add: r)
  then have "(of_int (u * E) :: rat) < of_int (C * v)"
    using assms(2) v by (simp add: field_simps)
  then have 2: "u * E < C * v"
    by (simp only: of_int_less_iff)
  have "v = v * (C * B - A * E)"
    by (simp add: assms(3))
  also have "\<dots> = B * (C * v - u * E) + E * (u * B - A * v)"
    by (simp add: algebra_simps)
  finally have v_eq: "v = B * (C * v - u * E) + E * (u * B - A * v)" .
  have "B * 1 \<le> B * (C * v - u * E)"
    using assms(1) 2 by (intro mult_left_mono) simp_all
  moreover have "E * 1 \<le> E * (u * B - A * v)"
    using assms(2) 1 by (intro mult_left_mono) simp_all
  ultimately have "B + E \<le> v"
    using v_eq by simp
  with small show False
    by simp
qed

text \<open>At the \<^verbatim>\<open>break\<close>, the fraction lies strictly between the two candidate bounds.\<close>

lemma limit_exit_sides:
  fixes x :: rat
  assumes inv: "limit_inv M N D p0 q0 p1 q1 n d"
    and brk: "M < q0 + (n div d) * q1"
    and x: "x = of_int N / of_int D"
  defines "k \<equiv> (M - q0) div q1"
  defines "P \<equiv> p0 + k * p1" and "Q \<equiv> q0 + k * q1"
  shows "(p1 * Q - P * q1 = 1 \<and> of_int P / of_int Q < x \<and> x < of_int p1 / of_int q1)
       \<or> (P * q1 - p1 * Q = 1 \<and> of_int p1 / of_int q1 < x \<and> x < of_int P / of_int Q)"
proof -
  note ex = limit_exit_facts [OF inv brk, folded k_def]
  from ex have q1: "0 < q1" and Q: "0 < Q" and nk: "0 < n - k * d" and d: "0 < d" and D: "0 < D"
    by (simp_all add: Q_def)
  from inv have eqD: "n * q1 + d * q0 = D" and eqN: "n * p1 + d * p0 = N"
    and det: "\<bar>p1 * q0 - p0 * q1\<bar> = 1"
    by (simp_all add: limit_inv_def)
  define s where "s = p1 * q0 - p0 * q1"
  have a: "N * q1 - p1 * D = - s * d"
    unfolding s_def eqD [symmetric] eqN [symmetric] by (simp add: algebra_simps)
  have b: "N * Q - P * D = s * (n - k * d)"
    unfolding s_def eqD [symmetric] eqN [symmetric] P_def Q_def by (simp add: algebra_simps)
  have c: "p1 * Q - P * q1 = s"
    unfolding s_def P_def Q_def by (simp add: algebra_simps)
  have lt: "\<And>a b c e :: int. 0 < b \<Longrightarrow> 0 < e \<Longrightarrow> a * e < c * b
      \<Longrightarrow> (of_int a :: rat) / of_int b < of_int c / of_int e"
  proof -
    fix a b c e :: int
    assume "0 < b" "0 < e" "a * e < c * b"
    then have "(of_int (a * e) :: rat) < of_int (c * b)"
      by (simp only: of_int_less_iff)
    with \<open>0 < b\<close> \<open>0 < e\<close> show "(of_int a :: rat) / of_int b < of_int c / of_int e"
      by (simp add: field_simps)
  qed
  from det have "s = 1 \<or> s = - 1"
    unfolding s_def by auto
  then show ?thesis
  proof
    assume s: "s = 1"
    from a s d have "N * q1 < p1 * D" by simp
    from lt [OF D q1 this] have 1: "x < of_int p1 / of_int q1"
      by (simp add: x)
    from b s nk have "P * D < N * Q" by simp
    from lt [OF Q D this] have 2: "of_int P / of_int Q < x"
      by (simp add: x)
    from c s 1 2 show ?thesis by simp
  next
    assume s: "s = - 1"
    from a s d have "p1 * D < N * q1" by simp
    from lt [OF q1 D this] have 1: "of_int p1 / of_int q1 < x"
      by (simp add: x)
    from b s nk have "N * Q < P * D" by simp
    from lt [OF D Q this] have 2: "x < of_int P / of_int Q"
      by (simp add: x)
    from c s 1 2 show ?thesis by simp
  qed
qed

lemma closer_than_outside:
  fixes lo hi x r :: rat
  assumes "lo < x" "x < hi" "r \<le> lo \<or> hi \<le> r"
  shows "\<bar>lo - x\<bar> \<le> \<bar>r - x\<bar> \<or> \<bar>hi - x\<bar> \<le> \<bar>r - x\<bar>"
  using assms by (auto simp: abs_if)

lemma limit_denominator_large:
  assumes q: "quotient_of x = (N, D)" and big: "max_denominator < D"
  shows "\<exists>y. limit_denominator x = Inr y
           \<and> denominator y \<le> max_denominator
           \<and> (\<forall>r. denominator r \<le> max_denominator \<longrightarrow> \<bar>y - x\<bar> \<le> \<bar>r - x\<bar>)"
proof -
  let ?M = max_denominator
  have M1: "1 \<le> ?M"
    by (simp add: max_denominator_def)
  from limit_loop_exit [OF limit_inv_init [OF q M1 big]]
  obtain p0 q0 p1 q1 n d where
    loop: "limit_loop ?M 0 1 1 0 N D = Inr (p0, q0, p1, q1, n, d)"
    and inv: "limit_inv ?M N D p0 q0 p1 q1 n d"
    and brk: "?M < q0 + (n div d) * q1"
    by blast
  define k where "k = (?M - q0) div q1"
  define P where "P = p0 + k * p1"
  define Q where "Q = q0 + k * q1"
  define b1 where "b1 = Fract P Q"
  define b2 where "b2 = Fract p1 q1"
  define y where "y = (if \<bar>b2 - x\<bar> \<le> \<bar>b1 - x\<bar> then b2 else b1)"
  note ex = limit_exit_facts [OF inv brk, folded k_def, folded Q_def]
  from ex have q1: "0 < q1" and Q: "0 < Q" and QM: "Q \<le> ?M" and QqM: "?M < Q + q1"
    by simp_all
  from inv have q1M: "q1 \<le> ?M"
    by (simp add: limit_inv_def)
  have res: "limit_denominator x = Inr y"
    using q big M1 loop q1 Q
    by (simp add: limit_denominator_def Let_def k_def [symmetric] P_def [symmetric]
        Q_def [symmetric] b1_def [symmetric] b2_def [symmetric] y_def)
  have den: "denominator y \<le> ?M"
  proof -
    have "denominator b1 \<le> Q" "denominator b2 \<le> q1"
      unfolding b1_def b2_def using q1 Q by (simp_all add: denominator_Fract_le)
    with QM q1M show ?thesis
      by (simp add: y_def)
  qed
  have x: "x = of_int N / of_int D"
    using q by (rule quotient_of_div)
  have b1: "b1 = of_int P / of_int Q" and b2: "b2 = of_int p1 / of_int q1"
    by (simp_all add: b1_def b2_def Fract_of_int_quotient)
  have best: "\<bar>y - x\<bar> \<le> \<bar>r - x\<bar>" if r: "denominator r \<le> ?M" for r
  proof -
    from r QqM have small: "denominator r < Q + q1" "denominator r < q1 + Q"
      by simp_all
    from limit_exit_sides [OF inv brk x, folded k_def, folded P_def Q_def]
    have "\<bar>b1 - x\<bar> \<le> \<bar>r - x\<bar> \<or> \<bar>b2 - x\<bar> \<le> \<bar>r - x\<bar>"
    proof
      assume h: "p1 * Q - P * q1 = 1 \<and> of_int P / of_int Q < x \<and> x < of_int p1 / of_int q1"
      from between_neighbours [OF Q q1 _ small(1), of p1 P] h
      have "r \<le> of_int P / of_int Q \<or> of_int p1 / of_int q1 \<le> r"
        by simp
      with h closer_than_outside [of "of_int P / of_int Q" x "of_int p1 / of_int q1" r]
      show ?thesis
        by (simp add: b1 b2)
    next
      assume h: "P * q1 - p1 * Q = 1 \<and> of_int p1 / of_int q1 < x \<and> x < of_int P / of_int Q"
      from between_neighbours [OF q1 Q _ small(2), of P p1] h
      have "r \<le> of_int p1 / of_int q1 \<or> of_int P / of_int Q \<le> r"
        by simp
      with h closer_than_outside [of "of_int p1 / of_int q1" x "of_int P / of_int Q" r]
      show ?thesis
        by (auto simp add: b1 b2)
    qed
    then show ?thesis
      by (auto simp: y_def)
  qed
  from res den best show ?thesis
    by blast
qed

lemma limit_denominator_correct:
  "\<exists>y. limit_denominator x = Inr y
     \<and> denominator y \<le> max_denominator
     \<and> (denominator x \<le> max_denominator \<longrightarrow> y = x)
     \<and> (\<forall>r. denominator r \<le> max_denominator \<longrightarrow> \<bar>y - x\<bar> \<le> \<bar>r - x\<bar>)"
proof -
  obtain N D where q: "quotient_of x = (N, D)"
    by (cases "quotient_of x")
  show ?thesis
  proof (cases "D \<le> max_denominator")
    case True
    with q have "limit_denominator x = Inr x"
      by (simp add: limit_denominator_def max_denominator_def)
    moreover from True q have "denominator x \<le> max_denominator"
      by (simp add: denominator_def)
    ultimately show ?thesis
      by simp
  next
    case False
    then have big: "max_denominator < D"
      by simp
    with q have "\<not> denominator x \<le> max_denominator"
      by (simp add: denominator_def)
    with limit_denominator_large [OF q big] show ?thesis
      by auto
  qed
qed

subsection \<open>Matrix construction\<close>

lemma limit_denominator_limited: "limit_denominator x = Inr (limited x)"
  using limit_denominator_correct [of x] by (auto simp: limited_def)

lemma limited_policy:
  "denominator (limited x) \<le> max_denominator"
  "denominator x \<le> max_denominator \<Longrightarrow> limited x = x"
  "denominator r \<le> max_denominator \<Longrightarrow> \<bar>limited x - x\<bar> \<le> \<bar>r - x\<bar>"
  using limit_denominator_correct [of x] by (auto simp: limited_def)

lemma build_matrix_rows:
  assumes "\<forall>i \<in> set idxs. i < length coefficients \<and> i < length constants"
  shows "build_matrix idxs coefficients constants acc
           = Inr (acc @ map (\<lambda>i. map limited (coefficients ! i) @ [limited (constants ! i)]) idxs)"
  using assms
proof (induction idxs arbitrary: acc)
  case Nil
  then show ?case by simp
next
  case (Cons i idxs)
  have "mapE limit_denominator (coefficients ! i) = Inr (map limited (coefficients ! i))"
    by (rule mapE_Inr) (rule limit_denominator_limited)
  with Cons show ?case
    by (simp add: limit_denominator_limited)
qed


subsection \<open>\<^verbatim>\<open>solve\<close> returns on every rectangular system\<close>



subsection \<open>What matrix construction does to its input values\<close>

text \<open>
  The input \<open>1/1000001\<close> of claim C7 is an exact rational in lowest terms; the matrix
  holds \<open>1/1000000\<close> in its place.
\<close>

theorem large_denominator_input_changed:
  "build_matrix [0..<1] [[Fract 1 1000001]] [0] [] = Inr [[Fract 1 1000000, 0]]
   \<and> Fract 1 1000000 \<noteq> (Fract 1 1000001 :: rat)"
  by code_simp

lemma build_matrix_entries:
  assumes "length constants = length coefficients"
  shows "\<exists>m. build_matrix [0..<length coefficients] coefficients constants [] = Inr m
           \<and> length m = length coefficients
           \<and> (\<forall>i<length coefficients.
                 m ! i = map limited (coefficients ! i @ [constants ! i]))"
proof -
  let ?m = "map (\<lambda>i. map limited (coefficients ! i) @ [limited (constants ! i)])
              [0..<length coefficients]"
  have "build_matrix [0..<length coefficients] coefficients constants [] = Inr ([] @ ?m)"
    using assms by (intro build_matrix_rows) simp
  then show ?thesis
    by simp
qed

text \<open>
  Claim C7, amended. With one constant per row, matrix construction returns a matrix
  with one row per input row, each the coefficient row followed by its constant, where
  every entry is a fraction in lowest terms with denominator at most 1000000; an input
  whose denominator is at most 1000000 appears unchanged; every other input, exact or
  not, is replaced by a fraction that is at least as close to it as any fraction with
  denominator at most 1000000.
\<close>

theorem matrix_construction_limits_denominators:
  assumes "length constants = length coefficients"
  shows "\<exists>m. build_matrix [0..<length coefficients] coefficients constants [] = Inr m
     \<and> length m = length coefficients
     \<and> (\<forall>i<length coefficients.
          length (m ! i) = length (coefficients ! i) + 1
          \<and> (\<forall>j<length (coefficients ! i) + 1.
               denominator (m ! i ! j) \<le> max_denominator
               \<and> (denominator ((coefficients ! i @ [constants ! i]) ! j) \<le> max_denominator
                    \<longrightarrow> m ! i ! j = (coefficients ! i @ [constants ! i]) ! j)
               \<and> (\<forall>r. denominator r \<le> max_denominator
                    \<longrightarrow> \<bar>m ! i ! j - (coefficients ! i @ [constants ! i]) ! j\<bar>
                          \<le> \<bar>r - (coefficients ! i @ [constants ! i]) ! j\<bar>)))"
proof -
  from build_matrix_entries [OF assms]
  obtain m where build: "build_matrix [0..<length coefficients] coefficients constants [] = Inr m"
    and len: "length m = length coefficients"
    and rows: "\<forall>i<length coefficients. m ! i = map limited (coefficients ! i @ [constants ! i])"
    by blast
  have "length (m ! i) = length (coefficients ! i) + 1
          \<and> (\<forall>j<length (coefficients ! i) + 1.
               denominator (m ! i ! j) \<le> max_denominator
               \<and> (denominator ((coefficients ! i @ [constants ! i]) ! j) \<le> max_denominator
                    \<longrightarrow> m ! i ! j = (coefficients ! i @ [constants ! i]) ! j)
               \<and> (\<forall>r. denominator r \<le> max_denominator
                    \<longrightarrow> \<bar>m ! i ! j - (coefficients ! i @ [constants ! i]) ! j\<bar>
                          \<le> \<bar>r - (coefficients ! i @ [constants ! i]) ! j\<bar>))"
    if i: "i < length coefficients" for i
  proof -
    let ?src = "coefficients ! i @ [constants ! i]"
    from rows i have row: "m ! i = map limited ?src"
      by simp
    have lsrc: "length ?src = length (coefficients ! i) + 1"
      by simp
    have ent: "m ! i ! j = limited (?src ! j)" if "j < length (coefficients ! i) + 1" for j
    proof -
      from that lsrc have "j < length ?src"
        by (simp only:)
      then show ?thesis
        unfolding row by (rule nth_map)
    qed
    have "length (m ! i) = length (coefficients ! i) + 1"
      unfolding row by (simp only: length_map lsrc)
    moreover have "denominator (m ! i ! j) \<le> max_denominator
               \<and> (denominator (?src ! j) \<le> max_denominator \<longrightarrow> m ! i ! j = ?src ! j)
               \<and> (\<forall>r. denominator r \<le> max_denominator
                    \<longrightarrow> \<bar>m ! i ! j - ?src ! j\<bar> \<le> \<bar>r - ?src ! j\<bar>)"
      if "j < length (coefficients ! i) + 1" for j
      unfolding ent [OF that] by (intro conjI impI allI limited_policy)
    ultimately show ?thesis
      by blast
  qed
  with build len show ?thesis
    by blast
qed

theorem matrix_construction_limits_denominators_witness:
  "\<exists>m. build_matrix [0..<length [[Fract 1 2 :: rat]]] [[Fract 1 2]] [Fract 1 1000001] [] = Inr m
     \<and> m ! 0 ! 0 = Fract 1 2 \<and> denominator (m ! 0 ! 1) \<le> max_denominator"
proof -
  have d: "denominator (Fract 1 2) \<le> max_denominator"
    by code_simp
  from matrix_construction_limits_denominators [of "[Fract 1 1000001]" "[[Fract 1 2]]"]
  obtain m where build: "build_matrix [0..<length [[Fract 1 2 :: rat]]] [[Fract 1 2]] [Fract 1 1000001] [] = Inr m"
    and ent: "\<forall>i<length [[Fract 1 2 :: rat]].
          length (m ! i) = length ([[Fract 1 2 :: rat]] ! i) + 1
          \<and> (\<forall>j<length ([[Fract 1 2 :: rat]] ! i) + 1.
               denominator (m ! i ! j) \<le> max_denominator
               \<and> (denominator (([[Fract 1 2]] ! i @ [[Fract 1 1000001] ! i]) ! j) \<le> max_denominator
                    \<longrightarrow> m ! i ! j = ([[Fract 1 2]] ! i @ [[Fract 1 1000001] ! i]) ! j)
               \<and> (\<forall>r. denominator r \<le> max_denominator
                    \<longrightarrow> \<bar>m ! i ! j - ([[Fract 1 2]] ! i @ [[Fract 1 1000001] ! i]) ! j\<bar>
                          \<le> \<bar>r - ([[Fract 1 2]] ! i @ [[Fract 1 1000001] ! i]) ! j\<bar>))"
    by auto
  from ent have e0: "denominator (m ! 0 ! 0) \<le> max_denominator
       \<and> (denominator (([[Fract 1 2]] ! 0 @ [[Fract 1 1000001] ! 0]) ! 0) \<le> max_denominator
                    \<longrightarrow> m ! 0 ! 0 = ([[Fract 1 2]] ! 0 @ [[Fract 1 1000001] ! 0]) ! 0)"
    by simp
  from ent have e1: "denominator (m ! 0 ! 1) \<le> max_denominator"
    by simp
  from e0 d have "m ! 0 ! 0 = Fract 1 2"
    by simp
  with build e1 show ?thesis
    by blast
qed

subsection \<open>The transcript only grows\<close>






subsection \<open>Degenerate inputs\<close>




subsection \<open>Formatting a fraction and reading it back\<close>


















lemma format_value_examples:
  "format_value (Fract 6 (- 4)) = ''-3/2''" "format_value (- 120) = ''-120''"
  "parse_fraction ''-3/2'' = Some (Fract (- 3) 2)"
  by code_simp+

end
